theory Spec2Isabelle
  imports Main "HOL-Library.Word"
begin

unbundle bit_operations_syntax

section \<open>Data model\<close>

text \<open>
  The fil-data-prep command (\<^verbatim>\<open>filDataPrep\<close>, \<^verbatim>\<open>writeNode\<close>, \<^verbatim>\<open>getRoots\<close>) is embedded
  here. Go strings and byte slices are byte sequences: text that the code splits is a
  \<open>string\<close> (a list of 8-bit characters), data written to the outbound pipe is a list
  of 8-bit words.
\<close>

type_synonym byte = "8 word"
type_synonym bytes = "byte list"

text \<open>
  A \<^verbatim>\<open>*merkledag.ProtoNode\<close> is used through two accessors only:
  \<^verbatim>\<open>nd.Cid().KeyString()\<close>, the binary form of its content identifier, and
  \<^verbatim>\<open>nd.RawData()\<close>, its serialized payload.
\<close>

record proto_node =
  KeyString :: bytes
  RawData :: bytes

text \<open>The content identifier of a node, as \<^verbatim>\<open>nd.Cid()\<close> yields it (in its binary key form).\<close>

definition Cid :: "proto_node \<Rightarrow> bytes" where
  "Cid nd = KeyString nd"

text \<open>What the command prints on standard output with \<^verbatim>\<open>fmt.Printf\<close>.\<close>

datatype log_entry =
    FailedUnmarshal string      \<comment> \<open>\<^verbatim>\<open>failed to unmarshal json: %s\<close>, with the line\<close>
  | FailedWriteCar              \<comment> \<open>\<^verbatim>\<open>failed to write car: %s\<close>\<close>
  | ProcessReaderError          \<comment> \<open>\<^verbatim>\<open>process reader error: %s\<close>\<close>
  | RootCidLine bytes           \<comment> \<open>\<^verbatim>\<open>root cid = %s\<close>\<close>

section \<open>Root Record Collector: \<^verbatim>\<open>getRoots\<close>\<close>

definition newline :: char where
  "newline = CHR 0x0A"

text \<open>
  \<^verbatim>\<open>strings.Split(s, sep)\<close> for a separator of one byte: the pieces between the
  separators, one more piece than there are separators (so the empty string gives one
  empty piece, and a string ending in the separator gives a last, empty piece).
\<close>

fun Split :: "string \<Rightarrow> char \<Rightarrow> string list" where
  "Split [] sep = [[]]"
| "Split (c # cs) sep =
     (if c = sep then [] # Split cs sep
      else (c # hd (Split cs sep)) # tl (Split cs sep))"

text \<open>
  The loop of \<^verbatim>\<open>getRoots\<close> over the lines. \<open>unmarshal el\<close> stands for
  \<^verbatim>\<open>json.Unmarshal([]byte(el), &r)\<close> on a fresh zero-valued \<^verbatim>\<open>r\<close>: it gives whether an
  error was returned and the value \<^verbatim>\<open>r\<close> holds afterwards. The accumulator is the pair of
  the records appended so far and the lines printed so far.
\<close>

fun getRoots_loop ::
  "(string \<Rightarrow> bool \<times> 'r) \<Rightarrow> string list \<Rightarrow> 'r list \<times> log_entry list \<Rightarrow> 'r list \<times> log_entry list"
where
  "getRoots_loop unmarshal [] acc = acc"
| "getRoots_loop unmarshal (el # els) (rs, lg) =
     (if el = [] then getRoots_loop unmarshal els (rs, lg)
      else
        (let (err, r) = unmarshal el;
             lg' = (if err then lg @ [FailedUnmarshal el] else lg)
         in getRoots_loop unmarshal els (rs @ [r], lg')))"

text \<open>
  \<^verbatim>\<open>getRoots\<close>: \<open>bs\<close> is what \<^verbatim>\<open>io.ReadAll(rerr)\<close> returned (its error is discarded by
  the code). The result is the record list together with the lines printed.
\<close>

definition getRoots :: "(string \<Rightarrow> bool \<times> 'r) \<Rightarrow> string \<Rightarrow> 'r list \<times> log_entry list" where
  "getRoots unmarshal bs = getRoots_loop unmarshal (Split bs newline) ([], [])"

section \<open>Frame Emitter: \<^verbatim>\<open>writeNode\<close>\<close>

text \<open>
  Modelled from the spec: \<^verbatim>\<open>appendVarint\<close> is called by \<^verbatim>\<open>writeNode\<close> but its body is
  not among the sources. The spec calls the length prefix a variable-length integer
  (varint); this is the unsigned varint of the archive framing: seven bits per byte,
  least significant group first, the top bit of a byte set when more bytes follow. The
  bytes are appended to \<open>tgt\<close>.
\<close>

function appendVarint :: "bytes \<Rightarrow> 64 word \<Rightarrow> bytes" where
  "appendVarint tgt v =
     (if v > 127 then appendVarint (tgt @ [ucast (v OR 128)]) (drop_bit 7 v)
      else tgt @ [ucast v])"
  by pat_completeness auto
termination
proof (relation "measure (\<lambda>(tgt, v). unat v)")
  show "wf (measure (\<lambda>(tgt, v). unat v))"
    by simp
next
  fix tgt :: bytes and v :: "64 word"
  assume "127 < v"
  then have "127 < unat v"
    by (simp add: word_less_nat_alt)
  then have "unat v div 128 < unat v"
    by simp
  then show "((tgt @ [ucast (v OR 128)], drop_bit 7 v), (tgt, v)) \<in> measure (\<lambda>(tgt, v). unat v)"
    by (simp add: drop_bit_eq_div unat_div)
qed

declare appendVarint.simps [simp del]

text \<open>
  The write end of the outbound pipe (\<^verbatim>\<open>*io.PipeWriter\<close>). Whether a \<^verbatim>\<open>Write\<close> fails is
  decided by the reading side, so the model carries the outcomes of the coming calls:
  \<open>WriteOk\<close>, or \<open>WriteErr n\<close> when the pipe is closed after \<open>n\<close> more bytes were taken.
  A closed pipe stays closed: after a failed call every later call fails and takes no
  byte (the outcomes left are then \<open>[WriteErr 0]\<close> for good). With no outcome listed
  every call succeeds. \<open>written\<close> is what has gone through the pipe so far.
\<close>

datatype write_result = WriteOk | WriteErr nat

record pipe_writer =
  written :: bytes
  pending :: "write_result list"

text \<open>\<^verbatim>\<open>wout.Write(p)\<close>: whether it returned an error, and the writer afterwards.\<close>

definition Write :: "pipe_writer \<Rightarrow> bytes \<Rightarrow> bool \<times> pipe_writer" where
  "Write w p =
     (case pending w of
        [] \<Rightarrow> (False, w\<lparr>written := written w @ p\<rparr>)
      | WriteOk # rest \<Rightarrow> (False, w\<lparr>written := written w @ p, pending := rest\<rparr>)
      | WriteErr n # rest \<Rightarrow>
          (True, w\<lparr>written := written w @ take n p, pending := [WriteErr 0]\<rparr>))"

text \<open>\<^verbatim>\<open>uint64(len(c)) + uint64(len(d))\<close>, the length written in front of a node.\<close>

definition byteLength :: "proto_node \<Rightarrow> 64 word" where
  "byteLength nd = of_nat (length (KeyString nd)) + of_nat (length (RawData nd))"

text \<open>
  The body of the loop of \<^verbatim>\<open>writeNode\<close> for one node: three writes, each attempted only
  if the one before returned no error; a line is printed only when the third one fails.
  The state is the writer and the lines printed so far.
\<close>

definition writeNode_step ::
  "proto_node \<Rightarrow> pipe_writer \<times> log_entry list \<Rightarrow> pipe_writer \<times> log_entry list"
where
  "writeNode_step nd st =
     (let (w, lg) = st;
          c = KeyString nd;
          d = RawData nd;
          sizeVi = appendVarint [] (byteLength nd);
          (err1, w1) = Write w sizeVi
      in if \<not> err1 then
           (let (err2, w2) = Write w1 c
            in if \<not> err2 then
                 (let (err3, w3) = Write w2 d
                  in if err3 then (w3, lg @ [FailedWriteCar]) else (w3, lg))
               else (w2, lg))
         else (w1, lg))"

fun writeNode ::
  "proto_node list \<Rightarrow> pipe_writer \<times> log_entry list \<Rightarrow> pipe_writer \<times> log_entry list"
where
  "writeNode [] st = st"
| "writeNode (nd # nodes) st = writeNode nodes (writeNode_step nd st)"

text \<open>The bytes of one frame: the varint of the length, the key bytes, the payload.\<close>

definition frame :: "proto_node \<Rightarrow> bytes" where
  "frame nd = appendVarint [] (byteLength nd) @ KeyString nd @ RawData nd"

section \<open>Reading a frame back\<close>

text \<open>
  Modelled from the spec: the repository only writes frames; reading one back is described
  by the spec as reading the varint length, then the key bytes, then the payload bytes.
  \<open>Uvarint_loop\<close> is the usual reader of an unsigned varint into 64 bits (at most ten
  bytes, the tenth at most 1); \<open>i\<close> counts the bytes read and \<open>x\<close> is the value so far.
\<close>

fun Uvarint_loop :: "nat \<Rightarrow> 64 word \<Rightarrow> bytes \<Rightarrow> (64 word \<times> bytes) option" where
  "Uvarint_loop i x [] = None"
| "Uvarint_loop i x (b # buf) =
     (if i = 10 then None
      else if b < 0x80 then
        (if i = 9 \<and> b > 1 then None else Some (x OR push_bit (7 * i) (ucast b), buf))
      else Uvarint_loop (i + 1) (x OR push_bit (7 * i) (ucast (b AND 0x7f))) buf)"

definition ReadUvarint :: "bytes \<Rightarrow> (64 word \<times> bytes) option" where
  "ReadUvarint buf = Uvarint_loop 0 0 buf"

text \<open>
  Modelled from the spec: one frame read from the front of a stream. The length prefix
  covers key and payload together, so the reader needs the extent of the content
  identifier at the front of the body; content identifiers are parsed by a library
  outside the repository, here \<open>cidLen\<close>, which gives the number of bytes the identifier
  at the front of its argument occupies. The result is the key, the payload and the rest
  of the stream.
\<close>

definition readFrame :: "(bytes \<Rightarrow> nat option) \<Rightarrow> bytes \<Rightarrow> ((bytes \<times> bytes) \<times> bytes) option" where
  "readFrame cidLen stream =
     (case ReadUvarint stream of
        None \<Rightarrow> None
      | Some (n, rest) \<Rightarrow>
          if length rest < unat n then None
          else
            (let body = take (unat n) rest
             in case cidLen body of
                  None \<Rightarrow> None
                | Some k \<Rightarrow>
                    if length body < k then None
                    else Some ((take k body, drop k body), drop (unat n) rest)))"

section \<open>Root Resolver and the core stage of \<^verbatim>\<open>filDataPrep\<close>\<close>

datatype error =
    NoData             \<comment> \<open>\<^verbatim>\<open>expected some data to be processed, found none\<close>\<close>
  | PathError          \<comment> \<open>an error of \<^verbatim>\<open>getAllFileReadersFromPath\<close>\<close>
  | AnelaceError       \<comment> \<open>\<^verbatim>\<open>unexpected error: %s\<close>\<close>
  | IndexOutOfRange    \<comment> \<open>the run-time panic of an index beyond the length of a slice\<close>
  | PackagingPanic     \<comment> \<open>a panic of the third stage\<close>

definition slash :: char where
  "slash = CHR ''/''"

text \<open>
  The choice of the root in the second goroutine of \<^verbatim>\<open>filDataPrep\<close>: the content
  identifier assigned to \<^verbatim>\<open>rcid\<close> and the slice handed to \<^verbatim>\<open>writeNode\<close>. Indexing a slice
  beyond its length panics; \<^verbatim>\<open>nodes[idx:]\<close> is only reached after \<^verbatim>\<open>nodes[idx]\<close>.
\<close>

definition rootResolver :: "string list \<Rightarrow> proto_node list \<Rightarrow> error + (bytes \<times> proto_node list)" where
  "rootResolver paths nodes =
     (if length nodes = 1 \<or> length paths > 1 then
        (if 0 < length nodes then Inr (Cid (nodes ! 0), nodes) else Inl IndexOutOfRange)
      else
        (if 0 < length paths then
           (let path = paths ! 0;
                splitPath = Split path slash;
                idx = length splitPath
            in if idx < length nodes then Inr (Cid (nodes ! idx), drop idx nodes)
               else Inl IndexOutOfRange)
         else Inl IndexOutOfRange))"

text \<open>
  What \<^verbatim>\<open>filDataPrep\<close> takes from outside this file. \<^verbatim>\<open>getAllFileReadersFromPath\<close>,
  \<^verbatim>\<open>constructTree\<close>, \<^verbatim>\<open>getDirectoryNodes\<close> and the type \<^verbatim>\<open>roots\<close> (here \<open>'r\<close>, with the tree
  type \<open>'t\<close>) are declared elsewhere in the package; the chunker, the JSON decoder and the
  packager are libraries.
  \<^item> \<open>getAllFileReadersFromPath\<close>: the file names under a path and their contents.
  \<^item> \<open>NewAnelaceWithWriters\<close>: the error of the chunker's constructor, if any.
  \<^item> \<open>ProcessReader\<close>: from the concatenated input, whether the chunker returned an error,
    what it wrote on the descriptor pipe and what it wrote on the outbound pipe.
  \<^item> \<open>Unmarshal\<close>: \<^verbatim>\<open>json.Unmarshal\<close> into a zero-valued \<^verbatim>\<open>roots\<close>, as in \<open>getRoots\<close>.
  \<^item> \<open>outcomes\<close>: the outcomes of the writes of \<^verbatim>\<open>writeNode\<close> on the outbound pipe.
  \<^item> \<open>packaging\<close>: the third goroutine (splitting, commitments, metadata files), given the
    outbound stream and the root identifier; it panics on every failure.
\<close>

record ('r, 't) env =
  getAllFileReadersFromPath :: "string \<Rightarrow> error + (string list \<times> bytes list)"
  NewAnelaceWithWriters :: "error option"
  ProcessReader :: "bytes \<Rightarrow> bool \<times> string \<times> bytes"
  Unmarshal :: "string \<Rightarrow> bool \<times> 'r"
  constructTree :: "string list \<Rightarrow> 'r list \<Rightarrow> 't"
  getDirectoryNodes :: "'t \<Rightarrow> proto_node list"
  outcomes :: "write_result list"
  packaging :: "bytes \<Rightarrow> bytes \<Rightarrow> error option"

text \<open>
  The second goroutine: collect the records from what was read of the descriptor pipe,
  build the nodes, choose the root and write the frames. The result is the panic with the
  lines printed before it, or the root identifier with the writer and the lines printed.
\<close>

definition coreStage ::
  "('r, 't) env \<Rightarrow> string list \<Rightarrow> string list \<Rightarrow> string \<Rightarrow> pipe_writer \<times> log_entry list
     \<Rightarrow> (error \<times> log_entry list) + (bytes \<times> pipe_writer \<times> log_entry list)"
where
  "coreStage e files paths rerr st =
     (let (rs, lg) = getRoots (Unmarshal e) rerr;
          tr = constructTree e files rs;
          nodes = getDirectoryNodes e tr
      in case rootResolver paths nodes of
           Inl err \<Rightarrow> Inl (err, snd st @ lg)
         | Inr (rcid, emitted) \<Rightarrow> Inr (rcid, writeNode emitted (fst st, snd st @ lg)))"

text \<open>The first loop of \<^verbatim>\<open>filDataPrep\<close>: the files and readers of every path, in order.\<close>

fun expandPaths ::
  "(string \<Rightarrow> error + (string list \<times> bytes list)) \<Rightarrow> string list
     \<Rightarrow> string list \<times> bytes list \<Rightarrow> error + (string list \<times> bytes list)"
where
  "expandPaths g [] acc = Inr acc"
| "expandPaths g (path # paths) (files, fileReaders) =
     (case g path of
        Inl err \<Rightarrow> Inl err
      | Inr (fs, frs) \<Rightarrow> expandPaths g paths (files @ fs, fileReaders @ frs))"

text \<open>
  What can be observed of a run: pipes created, goroutines started, lines printed and
  the bytes that went through the outbound pipe.
\<close>

datatype event =
    PipeCreated
  | StageStarted nat
  | Printed log_entry
  | Outbound bytes

text \<open>
  \<^verbatim>\<open>filDataPrep\<close>: the error returned (or the panic that ended the process) and the
  events of the run. The three goroutines are connected by unbuffered pipes and joined by
  the wait group; the descriptor pipe is read to its end by the second one before it
  writes, so its frames follow the chunker's blocks on the outbound pipe.
\<close>

definition filDataPrep :: "('r, 't) env \<Rightarrow> string list \<Rightarrow> error option \<times> event list" where
  "filDataPrep e args =
     (if args = [] then (Some NoData, [])
      else
        (case expandPaths (getAllFileReadersFromPath e) args ([], []) of
           Inl err \<Rightarrow> (Some err, [])
         | Inr (files, fileReaders) \<Rightarrow>
             (let pipes = [PipeCreated, PipeCreated]
              in case NewAnelaceWithWriters e of
                   Some err \<Rightarrow> (Some AnelaceError, pipes)
                 | None \<Rightarrow>
                     (let started = pipes @ [StageStarted 1, StageStarted 2, StageStarted 3];
                          (perr, rerr, blocks) = ProcessReader e (concat fileReaders);
                          lg0 = (if perr then [ProcessReaderError] else []);
                          wout = \<lparr>written = blocks, pending = outcomes e\<rparr>
                      in case coreStage e files args rerr (wout, lg0) of
                           Inl (err, lg) \<Rightarrow>
                             (Some err, started @ map Printed lg @ [Outbound blocks])
                         | Inr (rcid, w, lg) \<Rightarrow>
                             (case packaging e (written w) rcid of
                                Some err \<Rightarrow>
                                  (Some err, started @ map Printed lg @ [Outbound (written w)])
                              | None \<Rightarrow>
                                  (None, started @ map Printed (lg @ [RootCidLine rcid])
                                           @ [Outbound (written w)]))))))"

section \<open>Example inputs\<close>

definition node0 :: proto_node where
  "node0 = \<lparr>KeyString = [0x12, 0x20, 0xAA], RawData = [10, 11]\<rparr>"

definition node1 :: proto_node where
  "node1 = \<lparr>KeyString = [0x12, 0x20, 0xBB], RawData = [20]\<rparr>"

definition node2 :: proto_node where
  "node2 = \<lparr>KeyString = [0x12, 0x20, 0xCC], RawData = []\<rparr>"

definition node3 :: proto_node where
  "node3 = \<lparr>KeyString = [0x12, 0x20, 0xDD], RawData = [30, 31, 32]\<rparr>"

text \<open>A writer on which nothing was written and every write succeeds.\<close>

definition fresh_writer :: pipe_writer where
  "fresh_writer = \<lparr>written = [], pending = []\<rparr>"

text \<open>
  The writer of a pipe whose reading side was closed before anything was written: every
  write fails and takes no byte.
\<close>

definition closed_writer :: pipe_writer where
  "closed_writer = \<lparr>written = [], pending = [WriteErr 0]\<rparr>"


section \<open>The Root Record Collector\<close>

lemma Split_not_Nil: "Split s sep \<noteq> []"
  by (induction s) auto

lemma Split_trailing: "Split (s @ [sep]) sep = Split s sep @ [[]]"
  by (induction s) (auto simp: Split_not_Nil)

lemma getRoots_loop_append:
  "getRoots_loop um (xs @ ys) acc = getRoots_loop um ys (getRoots_loop um xs acc)"
  by (induction um xs acc rule: getRoots_loop.induct) (auto simp: Let_def split: prod.splits)

lemma getRoots_loop_skips_empty:
  "getRoots_loop um (filter (\<lambda>el. el \<noteq> []) els) acc = getRoots_loop um els acc"
  by (induction um els acc rule: getRoots_loop.induct) (auto simp: Let_def split: prod.splits)

lemma getRoots_loop_empty_line: "getRoots_loop um [[]] acc = acc"
  by (cases acc) simp

lemma getRoots_loop_length:
  "length (fst (getRoots_loop um els acc)) = length (fst acc) + length (filter (\<lambda>el. el \<noteq> []) els)"
  by (induction um els acc rule: getRoots_loop.induct) (auto simp: Let_def split: prod.splits)

text \<open>One record is returned for every non-empty line, whatever the decoder said of it.\<close>

lemma getRoots_length:
  "length (fst (getRoots um bs)) = length (filter (\<lambda>el. el \<noteq> []) (Split bs newline))"
  by (simp add: getRoots_def getRoots_loop_length)

text \<open>
  C2. A descriptor stream with one unparsable line among N valid lines is claimed to give
  N records. On the stream of the valid line \<open>{}\<close> and the line \<open>not json\<close>, whatever the
  decoder answers, \<open>getRoots\<close> returns two records: the record appended for the second
  line is the value the decoder left behind. After printing the failure the loop does not
  skip to the next line, so an unparsable line also contributes a record.
\<close>

theorem getRoots_keeps_unparsable_line:
  "fst (getRoots um (''{}'' @ [newline] @ ''not json'' @ [newline]))
     = [snd (um ''{}''), snd (um ''not json'')]"
  by (simp add: getRoots_def newline_def Let_def split: prod.splits)

text \<open>
  C10. Lines that are empty after splitting on the newline contribute neither a record
  nor a printed line: dropping the empty lines first changes nothing, and a stream with a
  trailing newline gives the same records (and the same printed lines) as the stream
  without it.
\<close>

theorem getRoots_ignores_empty_lines:
  "getRoots um (s @ [newline]) = getRoots um s
   \<and> getRoots_loop um (filter (\<lambda>el. el \<noteq> []) els) acc = getRoots_loop um els acc"
  by (simp add: getRoots_def Split_trailing getRoots_loop_append getRoots_loop_empty_line
        getRoots_loop_skips_empty)

section \<open>The varint length prefix\<close>

lemma varint_more_flag: "\<not> (ucast ((v::64 word) OR 128) :: byte) < 0x80"
proof -
  have "(ucast (v OR 128) :: byte) = ucast v OR 128"
    by (rule bit_word_eqI) (auto simp: bit_simps)
  moreover have "(128 :: byte) \<le> ucast v OR 128"
    by (rule le_word_or1)
  ultimately show ?thesis by (simp add: not_less)
qed

lemma varint_low_bits:
  "(ucast ((ucast ((v::64 word) OR 128) :: byte) AND 0x7f) :: 64 word) = take_bit 7 v"
proof -
  have m: "(0x7f :: byte) = mask 7" by (simp add: mask_eq_exp_minus_1)
  have t: "take_bit 7 (128 :: 64 word) = 0" by simp
  have "(ucast ((ucast (v OR 128) :: byte) AND mask 7) :: 64 word) = take_bit 7 (take_bit 8 (v OR 128))"
    by (simp only: take_bit_eq_mask [symmetric] unsigned_take_bit_eq unsigned_ucast_eq) simp
  also have "\<dots> = take_bit 7 (v OR 128)" by simp
  also have "\<dots> = take_bit 7 v" by (simp only: take_bit_or t) simp
  finally show ?thesis by (simp only: m)
qed

lemma take_or_push_drop: "take_bit 7 (v::64 word) OR push_bit 7 (drop_bit 7 v) = v"
proof (rule bit_word_eqI)
  fix n assume n: "n < LENGTH(64)"
  show "bit (take_bit 7 v OR push_bit 7 (drop_bit 7 v)) n = bit v n"
    using n by (cases "n < 7") (auto simp: bit_simps)
qed

lemma small_ucast_less: "(v :: 64 word) \<le> 127 \<Longrightarrow> (ucast v :: byte) < 0x80"
  by (simp add: word_less_nat_alt word_le_nat_alt unsigned_ucast_eq take_bit_eq_mod)

lemma small_ucast_id: "(v :: 64 word) \<le> 127 \<Longrightarrow> (ucast (ucast v :: byte) :: 64 word) = v"
  by (rule word_unat_eq_iff[THEN iffD2])
     (simp add: word_le_nat_alt unsigned_ucast_eq take_bit_eq_mod unat_mod)

lemma small_ucast_le1: "unat (v :: 64 word) < 2 \<Longrightarrow> \<not> (ucast v :: byte) > 1"
  by (simp add: word_less_nat_alt unsigned_ucast_eq take_bit_eq_mod unat_mod)

lemma appendVarint_prefix: "appendVarint tgt v = tgt @ appendVarint [] v"
proof -
  have "\<forall>t. appendVarint t v = t @ appendVarint [] v"
  proof (induction tgt v rule: appendVarint.induct)
    case (1 tgt v)
    show ?case
    proof (cases "127 < v")
      case True
      with 1 have ih: "\<And>t. appendVarint t (drop_bit 7 v) = t @ appendVarint [] (drop_bit 7 v)"
        by blast
      show ?thesis
      proof
        fix t
        have "appendVarint t v = appendVarint (t @ [ucast (v OR 128)]) (drop_bit 7 v)"
          using True by (subst appendVarint.simps) simp
        also have "\<dots> = t @ [ucast (v OR 128)] @ appendVarint [] (drop_bit 7 v)"
          by (subst ih) simp
        also have "[ucast (v OR 128)] @ appendVarint [] (drop_bit 7 v)
                     = appendVarint [ucast (v OR 128)] (drop_bit 7 v)"
          by (subst (2) ih) simp
        also have "\<dots> = appendVarint [] v"
          using True by (subst (2) appendVarint.simps) simp
        finally show "appendVarint t v = t @ appendVarint [] v" .
      qed
    next
      case False
      then show ?thesis by (simp add: appendVarint.simps)
    qed
  qed
  then show ?thesis by blast
qed


lemma appendVarint_small: "\<not> 127 < v \<Longrightarrow> appendVarint [] v = [ucast v]"
  by (subst appendVarint.simps) simp

lemma appendVarint_big:
  "127 < v \<Longrightarrow> appendVarint [] v = ucast (v OR 128) # appendVarint [] (drop_bit 7 v)"
  by (subst appendVarint.simps, subst appendVarint_prefix) simp

lemma Uvarint_loop_appendVarint_aux:
  fixes tgt :: bytes
  shows "\<forall>i x. i \<le> 9 \<longrightarrow> unat v < 2 ^ (64 - 7 * i) \<longrightarrow>
   Uvarint_loop i x (appendVarint [] v @ rest) = Some (x OR push_bit (7 * i) v, rest)"
proof (induction tgt v rule: appendVarint.induct)
  case (1 tgt v)
  show ?case
  proof (intro allI impI)
  fix i x
  assume i9: "i \<le> 9" and bound: "unat v < 2 ^ (64 - 7 * i)"
  show "Uvarint_loop i x (appendVarint [] v @ rest) = Some (x OR push_bit (7 * i) v, rest)"
  proof (cases "127 < v")
    case False
    then have le: "v \<le> 127" by simp
    have "\<not> (i = 9 \<and> (ucast v :: byte) > 1)"
    proof
      assume a: "i = 9 \<and> (ucast v :: byte) > 1"
      with bound have "unat v < 2" by simp
      with a show False using small_ucast_le1 by blast
    qed
    moreover have "i \<noteq> 10" using i9 by simp
    ultimately show ?thesis
      unfolding appendVarint_small [OF False]
      using le by (simp add: small_ucast_less small_ucast_id)
  next
    case True
    then have big: "127 < unat v" by (simp add: word_less_nat_alt)
    have i8: "i \<le> 8"
    proof (rule ccontr)
      assume "\<not> i \<le> 8"
      with i9 have "i = 9" by simp
      with bound big show False by simp
    qed
    have "(2::nat) ^ (64 - 7 * i) = 128 * 2 ^ (64 - 7 * (i + 1))"
    proof -
      have "64 - 7 * i = 7 + (64 - 7 * (i + 1))" using i8 by simp
      then have "(2::nat) ^ (64 - 7 * i) = 2 ^ (7 + (64 - 7 * (i + 1)))"
        by (rule arg_cong)
      also have "\<dots> = 2 ^ 7 * 2 ^ (64 - 7 * (i + 1))"
        by (rule power_add)
      finally show ?thesis by simp
    qed
    with bound have "unat v div 128 < 2 ^ (64 - 7 * (i + 1))"
      by (simp add: less_mult_imp_div_less mult.commute)
    then have small: "unat (drop_bit 7 v) < 2 ^ (64 - 7 * (i + 1))"
      by (simp add: drop_bit_eq_div unat_div)
    have ih: "Uvarint_loop (i + 1) y (appendVarint [] (drop_bit 7 v) @ rest)
             = Some (y OR push_bit (7 * (i + 1)) (drop_bit 7 v), rest)" for y
      using 1 [OF True] i8 small by simp
    have "push_bit (7 * i) (take_bit 7 v) OR push_bit (7 * (i + 1)) (drop_bit 7 v)
            = push_bit (7 * i) (take_bit 7 v OR push_bit 7 (drop_bit 7 v))"
      by (simp add: push_bit_or push_bit_push_bit add.commute)
    then have join: "push_bit (7 * i) (take_bit 7 v) OR push_bit (7 * (i + 1)) (drop_bit 7 v)
            = push_bit (7 * i) v"
      by (simp only: take_or_push_drop)
    have "i \<noteq> 10" using i8 by simp
    then have "Uvarint_loop i x (appendVarint [] v @ rest)
             = Uvarint_loop (i + 1) (x OR push_bit (7 * i) (take_bit 7 v))
                 (appendVarint [] (drop_bit 7 v) @ rest)"
      unfolding appendVarint_big [OF True]
      by (simp only: append_Cons Uvarint_loop.simps varint_more_flag varint_low_bits if_False)
    also have "\<dots> = Some ((x OR push_bit (7 * i) (take_bit 7 v))
                            OR push_bit (7 * (i + 1)) (drop_bit 7 v), rest)"
      by (rule ih)
    also have "\<dots> = Some (x OR push_bit (7 * i) v, rest)"
      by (simp only: or.assoc join)
    finally show ?thesis .
  qed
  qed
qed

lemma Uvarint_loop_appendVarint:
  "i \<le> 9 \<Longrightarrow> unat v < 2 ^ (64 - 7 * i) \<Longrightarrow>
   Uvarint_loop i x (appendVarint [] v @ rest) = Some (x OR push_bit (7 * i) v, rest)"
  using Uvarint_loop_appendVarint_aux [of v rest] by blast


lemma ReadUvarint_appendVarint: "ReadUvarint (appendVarint [] v @ rest) = Some (v, rest)"
proof -
  have "unat v < 2 ^ 64"
    using unsigned_less [of v] by simp
  then show ?thesis
    using Uvarint_loop_appendVarint [of 0 v 0 rest] by (simp add: ReadUvarint_def)
qed


section \<open>The Frame Emitter\<close>

lemma Write_ok: "pending w = [] \<Longrightarrow> Write w p = (False, w\<lparr>written := written w @ p\<rparr>)"
  by (simp add: Write_def)

lemma writeNode_step_ok:
  "pending w = [] \<Longrightarrow> writeNode_step nd (w, lg) = (w\<lparr>written := written w @ frame nd\<rparr>, lg)"
  by (simp add: writeNode_step_def Write_ok frame_def Let_def)

lemma writeNode_ok:
  "pending w = [] \<Longrightarrow>
   writeNode nodes (w, lg) = (w\<lparr>written := written w @ concat (map frame nodes)\<rparr>, lg)"
proof (induction nodes arbitrary: w)
  case Nil
  then show ?case by simp
next
  case (Cons nd nodes)
  have "pending (w\<lparr>written := written w @ frame nd\<rparr>) = []"
    using Cons.prems by simp
  from Cons.IH [OF this] show ?case
    using Cons.prems by (simp add: writeNode_step_ok)
qed

lemma byteLength_exact:
  assumes "length (KeyString nd) < 2 ^ 63" and "length (RawData nd) < 2 ^ 63"
  shows "unat (byteLength nd) = length (KeyString nd) + length (RawData nd)"
proof -
  have "unat (byteLength nd) = (length (KeyString nd) + length (RawData nd)) mod 2 ^ 64"
    using unat_of_nat [where ?'a = 64, of "length (KeyString nd) + length (RawData nd)"]
    by (simp add: byteLength_def)
  moreover have "length (KeyString nd) + length (RawData nd) < 2 ^ 64"
    using assms by simp
  ultimately show ?thesis
    by simp
qed

text \<open>
  C4. On a pipe whose writes succeed, \<open>writeNode\<close> appends to the outbound stream, for the
  nodes in their order, the varint of the byte length, the key bytes and the payload
  bytes of each node, with nothing in between. The byte length is the sum of the two
  lengths (a Go slice is shorter than \<open>2 ^ 63\<close>, so the 64-bit sum does not wrap). Nothing
  is printed.
\<close>

theorem writeNode_frames:
  assumes "pending w = []"
  shows "written (fst (writeNode nodes (w, lg))) =
           written w @ concat (map (\<lambda>nd. appendVarint [] (byteLength nd) @ KeyString nd @ RawData nd) nodes)
         \<and> snd (writeNode nodes (w, lg)) = lg
         \<and> (\<forall>nd. length (KeyString nd) < 2 ^ 63 \<longrightarrow> length (RawData nd) < 2 ^ 63 \<longrightarrow>
               unat (byteLength nd) = length (KeyString nd) + length (RawData nd))"
proof -
  have "frame = (\<lambda>nd. appendVarint [] (byteLength nd) @ KeyString nd @ RawData nd)"
    by (rule ext) (simp add: frame_def)
  then show ?thesis
    using writeNode_ok [OF assms, of nodes lg] byteLength_exact by simp
qed

theorem writeNode_frames_witness:
  "pending fresh_writer = []
   \<and> written (fst (writeNode [node0, node1] (fresh_writer, [])))
       = [5, 0x12, 0x20, 0xAA, 10, 11, 4, 0x12, 0x20, 0xBB, 20]
   \<and> unat (byteLength node0) = 5"
proof -
  have p: "pending fresh_writer = []"
    by (simp add: fresh_writer_def)
  have "length (KeyString node0) < 2 ^ 63" and "length (RawData node0) < 2 ^ 63"
    by (simp_all add: node0_def)
  with writeNode_frames [OF p, of "[node0, node1]" "[]"] p show ?thesis
    by (simp add: fresh_writer_def node0_def node1_def byteLength_def appendVarint.simps)
qed

text \<open>
  C5. A node written by \<open>writeNode\<close> on a fresh pipe whose writes succeed, and then read back
  as one frame (varint length, key bytes, payload bytes), gives the key bytes and the
  payload bytes of the node again, and leaves what follows the frame on the stream. The
  reader of content identifiers is assumed to find the extent of the node's identifier
  at the front of the frame's body.
\<close>

theorem frame_round_trip:
  assumes "pending w = []" and "written w = []"
    and "length (KeyString nd) < 2 ^ 63" and "length (RawData nd) < 2 ^ 63"
    and "cidLen (KeyString nd @ RawData nd) = Some (length (KeyString nd))"
  shows "readFrame cidLen (written (fst (writeNode [nd] (w, lg))) @ rest)
           = Some ((KeyString nd, RawData nd), rest)"
proof -
  let ?c = "KeyString nd" and ?d = "RawData nd"
  have out: "written (fst (writeNode [nd] (w, lg))) = appendVarint [] (byteLength nd) @ ?c @ ?d"
    using writeNode_ok [OF assms(1), of "[nd]" lg] assms(2) by (simp add: frame_def)
  have rd: "ReadUvarint ((appendVarint [] (byteLength nd) @ ?c @ ?d) @ rest)
              = Some (byteLength nd, ?c @ ?d @ rest)"
    using ReadUvarint_appendVarint [of "byteLength nd" "?c @ ?d @ rest"] by simp
  have n: "unat (byteLength nd) = length ?c + length ?d"
    using assms(3,4) by (rule byteLength_exact)
  show ?thesis
    unfolding out readFrame_def rd by (simp add: n assms(5) Let_def)
qed

theorem frame_round_trip_witness:
  "readFrame (\<lambda>body. Some 3) (written (fst (writeNode [node3] (fresh_writer, []))) @ [1, 2])
     = Some (([0x12, 0x20, 0xDD], [30, 31, 32]), [1, 2])"
proof -
  have "pending fresh_writer = []" and "written fresh_writer = []"
    by (simp_all add: fresh_writer_def)
  moreover have "length (KeyString node3) < 2 ^ 63" and "length (RawData node3) < 2 ^ 63"
    by (simp_all add: node3_def)
  moreover have "(\<lambda>body. Some 3) (KeyString node3 @ RawData node3) = Some (length (KeyString node3))"
    by (simp add: node3_def)
  ultimately have "readFrame (\<lambda>body. Some 3)
      (written (fst (writeNode [node3] (fresh_writer, []))) @ [1, 2])
        = Some ((KeyString node3, RawData node3), [1, 2])"
    by (rule frame_round_trip)
  then show ?thesis
    by (simp add: node3_def)
qed

text \<open>
  The three ways a frame can fail: at the length prefix, at the key and at the payload.
  Only the last one prints a line.
\<close>

lemma writeNode_step_prefix_failure:
  "pending w = WriteErr n # rest \<Longrightarrow>
   writeNode_step nd (w, lg)
     = (w\<lparr>written := written w @ take n (appendVarint [] (byteLength nd)),
          pending := [WriteErr 0]\<rparr>, lg)"
  by (simp add: writeNode_step_def Write_def Let_def)

lemma writeNode_step_key_failure:
  "pending w = WriteOk # WriteErr n # rest \<Longrightarrow> snd (writeNode_step nd (w, lg)) = lg"
  by (simp add: writeNode_step_def Write_def Let_def)

lemma writeNode_step_payload_failure:
  "pending w = WriteOk # WriteOk # WriteErr n # rest \<Longrightarrow>
   snd (writeNode_step nd (w, lg)) = lg @ [FailedWriteCar]"
  by (simp add: writeNode_step_def Write_def Let_def)

text \<open>On a closed pipe a frame fails at its length prefix: no byte, no line.\<close>

lemma writeNode_step_closed:
  "pending w = [WriteErr 0] \<Longrightarrow> writeNode_step nd (w, lg) = (w, lg)"
  by (simp add: writeNode_step_prefix_failure)

lemma writeNode_closed:
  "pending w = [WriteErr 0] \<Longrightarrow> writeNode nodes (w, lg) = (w, lg)"
  by (induction nodes) (simp_all add: writeNode_step_closed)

text \<open>
  C6. Every frame whose write fails is claimed to be logged, the loop going on with the
  next node. With two nodes and a pipe on which the write of the length prefix fails for
  the first node and again for the second, \<open>writeNode\<close> runs through both nodes and
  returns, but no byte is written and nothing is printed: only a failure of the third
  write of a frame, the payload, prints a line. The same holds for every node sequence
  on a closed pipe.
\<close>

theorem writeNode_silent_on_closed_pipe:
  "writeNode [node0, node1] (\<lparr>written = [], pending = [WriteErr 0, WriteErr 0]\<rparr>, [])
     = (\<lparr>written = [], pending = [WriteErr 0]\<rparr>, [])
   \<and> writeNode nodes (closed_writer, lg) = (closed_writer, lg)"
proof
  show "writeNode [node0, node1] (\<lparr>written = [], pending = [WriteErr 0, WriteErr 0]\<rparr>, [])
          = (\<lparr>written = [], pending = [WriteErr 0]\<rparr>, [])"
    by (simp add: writeNode_step_def Write_def Let_def)
next
  have "pending closed_writer = [WriteErr 0]"
    by (simp add: closed_writer_def)
  then show "writeNode nodes (closed_writer, lg) = (closed_writer, lg)"
    by (rule writeNode_closed)
qed

section \<open>The Root Resolver\<close>

text \<open>
  What the second branch does with one input path: the index is the number of pieces
  \<^verbatim>\<open>strings.Split\<close> gives. Below the number of nodes it selects that node and the nodes
  from it on; otherwise the indexing panics. The path \<open>a/b/c\<close> has three pieces, so with
  at least four nodes node 3 is the root.
\<close>

lemma rootResolver_index:
  assumes "length nodes \<noteq> 1" and "length (Split path slash) < length nodes"
  shows "rootResolver [path] nodes
           = Inr (Cid (nodes ! length (Split path slash)), drop (length (Split path slash)) nodes)"
  using assms by (simp add: rootResolver_def Let_def)

lemma rootResolver_index_out_of_range:
  assumes "length nodes \<noteq> 1" and "length nodes \<le> length (Split path slash)"
  shows "rootResolver [path] nodes = Inl IndexOutOfRange"
  using assms by (simp add: rootResolver_def Let_def)

lemma rootResolver_three_deep:
  assumes "3 < length nodes"
  shows "rootResolver [''a/b/c''] nodes = Inr (Cid (nodes ! 3), drop 3 nodes)"
proof -
  have pieces: "length (Split ''a/b/c'' slash) = 3"
    by (simp add: slash_def)
  show ?thesis
    using rootResolver_index [of nodes "''a/b/c''"] pieces assms by simp
qed

text \<open>
  C1. With one input path and a node sequence of more than one element, the root is
  claimed to be node \<open>k\<close>, with \<open>k\<close> the number of segments of the path, and exactly the
  nodes from \<open>k\<close> on to be emitted. The code takes for the index the number of pieces of
  \<^verbatim>\<open>strings.Split\<close>, which counts the empty piece behind a trailing slash, and does not
  check it against the number of nodes. For the path \<open>a/b/\<close>, of two segments, the index
  is 3: whatever the node sequence (not of length 1), the stage chooses node 3 and emits
  the nodes from 3 on when there are more than three nodes, and panics otherwise. In no
  case is the result node 2 with the nodes from 2 on.
\<close>

theorem rootResolver_trailing_slash:
  assumes "length nodes \<noteq> 1"
  shows "rootResolver [''a/b/''] nodes
           = (if 3 < length nodes then Inr (Cid (nodes ! 3), drop 3 nodes)
              else Inl IndexOutOfRange)
         \<and> rootResolver [''a/b/''] nodes \<noteq> Inr (Cid (nodes ! 2), drop 2 nodes)"
proof -
  have pieces: "length (Split ''a/b/'' slash) = 3"
    by (simp add: slash_def)
  have res: "rootResolver [''a/b/''] nodes
           = (if 3 < length nodes then Inr (Cid (nodes ! 3), drop 3 nodes)
              else Inl IndexOutOfRange)"
  proof (cases "3 < length nodes")
    case True
    then show ?thesis
      using rootResolver_index [OF assms, of "''a/b/''"] pieces by simp
  next
    case False
    then show ?thesis
      using rootResolver_index_out_of_range [OF assms, of "''a/b/''"] pieces by simp
  qed
  have "rootResolver [''a/b/''] nodes \<noteq> Inr (Cid (nodes ! 2), drop 2 nodes)"
  proof (cases "3 < length nodes")
    case True
    have "drop 3 nodes \<noteq> drop 2 nodes"
    proof
      assume same: "drop 3 nodes = drop 2 nodes"
      have "length (drop 3 nodes) = length (drop 2 nodes)"
        by (simp only: same)
      with True show False
        by simp
    qed
    with True res show ?thesis
      by simp
  next
    case False
    with res show ?thesis
      by simp
  qed
  with res show ?thesis
    by blast
qed

theorem rootResolver_trailing_slash_witness:
  "rootResolver [''a/b/''] [node0, node1, node2, node3] = Inr (Cid node3, [node3])
   \<and> rootResolver [''a/b/''] [node0, node1, node2] = Inl IndexOutOfRange"
  using rootResolver_trailing_slash [of "[node0, node1, node2, node3]"]
    rootResolver_trailing_slash [of "[node0, node1, node2]"]
  by simp

text \<open>
  C3. When the node sequence has exactly one element, or more than one input path was
  given, the root is node 0 and the whole sequence is emitted. The node sequence is never
  empty: its index 0 is always the synthetic super-root.
\<close>

theorem rootResolver_super_root:
  assumes "nodes \<noteq> []" and "length nodes = 1 \<or> 1 < length paths"
  shows "rootResolver paths nodes = Inr (Cid (nodes ! 0), nodes)"
  using assms by (simp add: rootResolver_def)

theorem rootResolver_super_root_witness:
  "rootResolver [''a/b'', ''c''] [node0, node1, node2] = Inr (Cid node0, [node0, node1, node2])
   \<and> rootResolver [''f''] [node0] = Inr (Cid node0, [node0])"
  using rootResolver_super_root [of "[node0, node1, node2]" "[''a/b'', ''c'']"]
    rootResolver_super_root [of "[node0]" "[''f'']"]
  by simp

section \<open>The invocation\<close>

text \<open>With arguments that expand and a chunker that is created, the pipeline is set up.\<close>

lemma filDataPrep_starts_pipeline:
  assumes "args \<noteq> []"
    and "expandPaths (getAllFileReadersFromPath e) args ([], []) = Inr (files, fileReaders)"
    and "NewAnelaceWithWriters e = None"
  shows "take 5 (snd (filDataPrep e args))
           = [PipeCreated, PipeCreated, StageStarted 1, StageStarted 2, StageStarted 3]"
  using assms
  by (simp add: filDataPrep_def Let_def split: prod.splits sum.splits option.splits)

text \<open>
  C8. An invocation without arguments returns the error at once: no pipe is created, no
  goroutine is started, nothing is printed and nothing is written.
\<close>

theorem filDataPrep_no_arguments:
  "filDataPrep e [] = (Some NoData, [])"
  by (simp add: filDataPrep_def)

end
